theory Spec2Isabelle
  imports Complex_Main "HOL-Library.Monad_Syntax"
begin

section \<open>Word-level alignment of a typed transcript (script.js)\<close>

text \<open>
  The embedding follows \<^verbatim>\<open>src/script.js\<close>. Tokens are strings compared with
  \<^verbatim>\<open>===\<close>, which on strings is equality of their contents. The cells of the
  matrix \<^verbatim>\<open>dp\<close> hold JavaScript numbers that are always non-negative integers
  bounded by the longer input, far below \<open>2^53\<close>, so they are modelled as \<open>nat\<close>.

  JavaScript does not fail on an index out of range: a read yields \<^verbatim>\<open>undefined\<close>,
  a write extends the array, and reading a property of an undefined row throws a
  TypeError. None of these stays inside the data model (numbers in a matrix of fixed
  shape), so every indexed access of the source is a checked access here and returns
  \<open>None\<close> when the index is out of range. \<open>None\<close> therefore covers every exception
  the function could raise.
\<close>

subsection \<open>Indexed accesses\<close>

type_synonym matrix = "nat list list"

definition word_at :: "string list \<Rightarrow> nat \<Rightarrow> string option" where
  "word_at ws k = (if k < length ws then Some (ws ! k) else None)"

definition cell :: "matrix \<Rightarrow> nat \<Rightarrow> nat \<Rightarrow> nat option" where
  "cell dp i j = (if i < length dp \<and> j < length (dp ! i) then Some (dp ! i ! j) else None)"

definition set_cell :: "matrix \<Rightarrow> nat \<Rightarrow> nat \<Rightarrow> nat \<Rightarrow> matrix option" where
  "set_cell dp i j v =
     (if i < length dp \<and> j < length (dp ! i) then Some (dp[i := (dp ! i)[j := v]]) else None)"

definition mark :: "bool list \<Rightarrow> nat \<Rightarrow> bool list option" where
  "mark ms k = (if k < length ms then Some (ms[k := True]) else None)"

subsection \<open>Filling the matrix (lines 23 to 39)\<close>

text \<open>
  Lines 11 to 14 allocate and fill two rows \<^verbatim>\<open>prevRow\<close>, \<^verbatim>\<open>currRow\<close> that are
  never read afterwards; they do not influence the result and are left out.
\<close>

text \<open>\<^verbatim>\<open>Array.from({ length: m + 1 }, () => new Array(n + 1).fill(0))\<close>: every row is a
  fresh array, so there is no aliasing between rows.\<close>

definition new_dp :: "nat \<Rightarrow> nat \<Rightarrow> matrix" where
  "new_dp m n = replicate (Suc m) (replicate (Suc n) 0)"

text \<open>\<^verbatim>\<open>for (let i = 0; i <= m; i++) dp[i][0] = i;\<close>\<close>

function init_col :: "nat \<Rightarrow> nat \<Rightarrow> matrix \<Rightarrow> matrix option" where
  "init_col m i dp =
     (if i \<le> m then
        (case set_cell dp i 0 i of None \<Rightarrow> None | Some dp' \<Rightarrow> init_col m (Suc i) dp')
      else Some dp)"
  by pat_completeness auto
termination
  by (relation "measure (\<lambda>(m, i, dp). Suc m - i)") auto

text \<open>\<^verbatim>\<open>for (let j = 0; j <= n; j++) dp[0][j] = j;\<close>\<close>

function init_row :: "nat \<Rightarrow> nat \<Rightarrow> matrix \<Rightarrow> matrix option" where
  "init_row n j dp =
     (if j \<le> n then
        (case set_cell dp 0 j j of None \<Rightarrow> None | Some dp' \<Rightarrow> init_row n (Suc j) dp')
      else Some dp)"
  by pat_completeness auto
termination
  by (relation "measure (\<lambda>(n, j, dp). Suc n - j)") auto

text \<open>The body of the inner loop (lines 29 to 37): the value stored in \<^verbatim>\<open>dp[i][j]\<close>.
  \<^verbatim>\<open>Math.min\<close> is applied to up + 1, left + 1 and diagonal + 1, in this order.\<close>

definition fill_cell :: "string list \<Rightarrow> string list \<Rightarrow> nat \<Rightarrow> nat \<Rightarrow> matrix \<Rightarrow> matrix option" where
  "fill_cell originalWords typedWords i j dp = do {
     a \<leftarrow> word_at originalWords (i - 1);
     b \<leftarrow> word_at typedWords (j - 1);
     if a = b then do {
       d \<leftarrow> cell dp (i - 1) (j - 1);
       set_cell dp i j d
     } else do {
       u \<leftarrow> cell dp (i - 1) j;
       l \<leftarrow> cell dp i (j - 1);
       d \<leftarrow> cell dp (i - 1) (j - 1);
       set_cell dp i j (min (u + 1) (min (l + 1) (d + 1)))
     }
   }"

text \<open>\<^verbatim>\<open>for (let j = 1; j <= n; j++) { ... }\<close>\<close>

function fill_row :: "string list \<Rightarrow> string list \<Rightarrow> nat \<Rightarrow> nat \<Rightarrow> matrix \<Rightarrow> matrix option" where
  "fill_row originalWords typedWords i j dp =
     (if j \<le> length typedWords then
        (case fill_cell originalWords typedWords i j dp of
           None \<Rightarrow> None
         | Some dp' \<Rightarrow> fill_row originalWords typedWords i (Suc j) dp')
      else Some dp)"
  by pat_completeness auto
termination
  by (relation "measure (\<lambda>(ow, tw, i, j, dp). Suc (length tw) - j)") auto

text \<open>\<^verbatim>\<open>for (let i = 1; i <= m; i++) { ... }\<close>\<close>

function fill_rows :: "string list \<Rightarrow> string list \<Rightarrow> nat \<Rightarrow> matrix \<Rightarrow> matrix option" where
  "fill_rows originalWords typedWords i dp =
     (if i \<le> length originalWords then
        (case fill_row originalWords typedWords i 1 dp of
           None \<Rightarrow> None
         | Some dp' \<Rightarrow> fill_rows originalWords typedWords (Suc i) dp')
      else Some dp)"
  by pat_completeness auto
termination
  by (relation "measure (\<lambda>(ow, tw, i, dp). Suc (length ow) - i)") auto

definition build_dp :: "string list \<Rightarrow> string list \<Rightarrow> matrix option" where
  "build_dp originalWords typedWords = do {
     let m = length originalWords;
     let n = length typedWords;
     dp \<leftarrow> init_col m 0 (new_dp m n);
     dp \<leftarrow> init_row n 0 dp;
     fill_rows originalWords typedWords 1 dp
   }"

subsection \<open>Traceback (lines 41 to 64)\<close>

text \<open>
  The state of the loops is the pair of indices and the two marking arrays. The field
  \<open>tb_trace\<close> is a ghost field: it records which branch of the loop body each
  iteration of the first loop took, oldest first, and is read by no branch.
\<close>

datatype move = Match | Substitution | Deletion | Insertion | Fallback

record tb_state =
  tb_i :: nat
  tb_j :: nat
  tb_originalMark :: "bool list"
  tb_typedMark :: "bool list"
  tb_trace :: "move list"

text \<open>\<^verbatim>\<open>while(i > 0 && j > 0){ ... }\<close>, the branches in the order of the source.\<close>

function traceback :: "string list \<Rightarrow> string list \<Rightarrow> matrix \<Rightarrow> tb_state \<Rightarrow> tb_state option" where
  "traceback originalWords typedWords dp st =
     (let i = tb_i st; j = tb_j st in
      if i > 0 \<and> j > 0 then do {
        a \<leftarrow> word_at originalWords (i - 1);
        b \<leftarrow> word_at typedWords (j - 1);
        if a = b then
          traceback originalWords typedWords dp
            (st\<lparr>tb_i := i - 1, tb_j := j - 1, tb_trace := tb_trace st @ [Match]\<rparr>)
        else do {
          c \<leftarrow> cell dp i j;
          d \<leftarrow> cell dp (i - 1) (j - 1);
          if c = d + 1 then do {
            om \<leftarrow> mark (tb_originalMark st) (i - 1);
            tm \<leftarrow> mark (tb_typedMark st) (j - 1);
            traceback originalWords typedWords dp
              (st\<lparr>tb_i := i - 1, tb_j := j - 1, tb_originalMark := om, tb_typedMark := tm,
                  tb_trace := tb_trace st @ [Substitution]\<rparr>)
          } else do {
            u \<leftarrow> cell dp (i - 1) j;
            if c = u + 1 then do {
              om \<leftarrow> mark (tb_originalMark st) (i - 1);
              traceback originalWords typedWords dp
                (st\<lparr>tb_i := i - 1, tb_originalMark := om,
                    tb_trace := tb_trace st @ [Deletion]\<rparr>)
            } else do {
              l \<leftarrow> cell dp i (j - 1);
              if c = l + 1 then do {
                tm \<leftarrow> mark (tb_typedMark st) (j - 1);
                traceback originalWords typedWords dp
                  (st\<lparr>tb_j := j - 1, tb_typedMark := tm,
                      tb_trace := tb_trace st @ [Insertion]\<rparr>)
              } else
                traceback originalWords typedWords dp
                  (st\<lparr>tb_i := i - 1, tb_j := j - 1, tb_trace := tb_trace st @ [Fallback]\<rparr>)
            }
          }
        }
      } else Some st)"
  by pat_completeness auto
termination
  by (relation "measure (\<lambda>(ow, tw, dp, st). tb_i st + tb_j st)") auto

text \<open>\<^verbatim>\<open>while(i > 0){ originalMark[i-1] = true; i--; }\<close>\<close>

function rest_original :: "tb_state \<Rightarrow> tb_state option" where
  "rest_original st =
     (if tb_i st > 0 then
        (case mark (tb_originalMark st) (tb_i st - 1) of
           None \<Rightarrow> None
         | Some om \<Rightarrow> rest_original (st\<lparr>tb_originalMark := om, tb_i := tb_i st - 1\<rparr>))
      else Some st)"
  by pat_completeness auto
termination
  by (relation "measure tb_i") auto

text \<open>\<^verbatim>\<open>while(j > 0){ typedMark[j-1] = true; j--; }\<close>\<close>

function rest_typed :: "tb_state \<Rightarrow> tb_state option" where
  "rest_typed st =
     (if tb_j st > 0 then
        (case mark (tb_typedMark st) (tb_j st - 1) of
           None \<Rightarrow> None
         | Some tm \<Rightarrow> rest_typed (st\<lparr>tb_typedMark := tm, tb_j := tb_j st - 1\<rparr>))
      else Some st)"
  by pat_completeness auto
termination
  by (relation "measure tb_j") auto

text \<open>Lines 41 to 43: the state in which the first loop starts.\<close>

definition tb_start :: "nat \<Rightarrow> nat \<Rightarrow> tb_state" where
  "tb_start m n =
     \<lparr>tb_i = m, tb_j = n, tb_originalMark = replicate m False,
      tb_typedMark = replicate n False, tb_trace = []\<rparr>"

subsection \<open>The function wordEditDistance\<close>

record result =
  errors :: nat
  originalMark :: "bool list"
  typedMark :: "bool list"

definition wordEditDistance :: "string list \<Rightarrow> string list \<Rightarrow> result option" where
  "wordEditDistance originalWords typedWords = do {
     let m = length originalWords;
     let n = length typedWords;
     dp \<leftarrow> build_dp originalWords typedWords;
     st \<leftarrow> traceback originalWords typedWords dp (tb_start m n);
     st \<leftarrow> rest_original st;
     st \<leftarrow> rest_typed st;
     e \<leftarrow> cell dp m n;
     Some \<lparr>errors = e, originalMark = tb_originalMark st, typedMark = tb_typedMark st\<rparr>
   }"

text \<open>The branches that the first traceback loop takes on a pair of inputs.\<close>

definition traceback_moves :: "string list \<Rightarrow> string list \<Rightarrow> move list option" where
  "traceback_moves originalWords typedWords = do {
     dp \<leftarrow> build_dp originalWords typedWords;
     st \<leftarrow> traceback originalWords typedWords dp
            (tb_start (length originalWords) (length typedWords));
     Some (tb_trace st)
   }"

subsection \<open>The distance of the specification\<close>

text \<open>
  The token-level Levenshtein distance as the specification words it: the base cases
  \<open>distance(i, 0) = i\<close> and \<open>distance(0, j) = j\<close>, and the recurrence on
  \<open>reference[i-1]\<close> and \<open>typed[j-1]\<close>.
\<close>

fun distance :: "string list \<Rightarrow> string list \<Rightarrow> nat \<Rightarrow> nat \<Rightarrow> nat" where
  "distance reference typed i 0 = i"
| "distance reference typed 0 j = j"
| "distance reference typed (Suc i) (Suc j) =
     (if reference ! i = typed ! j then distance reference typed i j
      else 1 + min (distance reference typed i j)
                   (min (distance reference typed i (Suc j)) (distance reference typed (Suc i) j)))"

text \<open>
  The traceback as the specification words it, on the distance above instead of the
  matrix of the code. It walks backward from \<open>(i, j)\<close> with the two marking vectors
  \<open>rm\<close> (reference) and \<open>tm\<close> (typed):
  \<^item> at a boundary (\<open>i = 0\<close> or \<open>j = 0\<close>) every remaining position of the surviving
    axis is marked;
  \<^item> on equal tokens it moves diagonally and marks nothing;
  \<^item> otherwise, in this order: substitution (the cell is the diagonal neighbour + 1)
    marks both positions and moves diagonally; deletion (the upper neighbour + 1) marks
    the reference position and moves up; insertion (the left neighbour + 1) marks the
    typed position and moves left; the fallback moves diagonally and marks nothing.
\<close>

fun spec_traceback ::
  "string list \<Rightarrow> string list \<Rightarrow> nat \<Rightarrow> nat \<Rightarrow> bool list \<Rightarrow> bool list \<Rightarrow> bool list \<times> bool list" where
  "spec_traceback reference typed 0 j rm tm =
     (rm, map (\<lambda>k. k < j \<or> tm ! k) [0..<length tm])"
| "spec_traceback reference typed i 0 rm tm =
     (map (\<lambda>k. k < i \<or> rm ! k) [0..<length rm], tm)"
| "spec_traceback reference typed (Suc i) (Suc j) rm tm =
     (if reference ! i = typed ! j then spec_traceback reference typed i j rm tm
      else if distance reference typed (Suc i) (Suc j) = distance reference typed i j + 1 then
        spec_traceback reference typed i j (rm[i := True]) (tm[j := True])
      else if distance reference typed (Suc i) (Suc j) = distance reference typed i (Suc j) + 1 then
        spec_traceback reference typed i (Suc j) (rm[i := True]) tm
      else if distance reference typed (Suc i) (Suc j) = distance reference typed (Suc i) j + 1 then
        spec_traceback reference typed (Suc i) j rm (tm[j := True])
      else spec_traceback reference typed i j rm tm)"

text \<open>The marking vectors of the specification for a pair of inputs: the walk from
  \<open>(m, n)\<close> with nothing marked.\<close>

definition spec_marks :: "string list \<Rightarrow> string list \<Rightarrow> bool list \<times> bool list" where
  "spec_marks reference typed =
     spec_traceback reference typed (length reference) (length typed)
       (replicate (length reference) False) (replicate (length typed) False)"

subsection \<open>The result page (showResult, lines 183 to 209, and saveHistoryRecord)\<close>

text \<open>
  The numbers that \<^verbatim>\<open>showResult\<close> computes are JavaScript doubles. A finite value is
  idealised as the exact rational (rounding of the quotient is not modelled); the three
  values that are not finite are kept apart, since a division by zero produces them.
\<close>

datatype jsnum = Num rat | PosInfinity | NegInfinity | NaN

text \<open>The operator \<^verbatim>\<open>/\<close> on two finite numbers, the divisor being \<open>+0\<close> when it is zero
  (here an array length): \<open>0/0\<close> is NaN and \<open>x/0\<close> is an infinity with the sign of \<open>x\<close>.\<close>

definition js_div :: "rat \<Rightarrow> rat \<Rightarrow> jsnum" where
  "js_div x y =
     (if y = 0 then (if x = 0 then NaN else if 0 < x then PosInfinity else NegInfinity)
      else Num (x / y))"

text \<open>\<^verbatim>\<open>* 100\<close>\<close>

fun times100 :: "jsnum \<Rightarrow> jsnum" where
  "times100 (Num x) = Num (x * 100)"
| "times100 PosInfinity = PosInfinity"
| "times100 NegInfinity = NegInfinity"
| "times100 NaN = NaN"

text \<open>
  \<^verbatim>\<open>toFixed(2)\<close> returns a string: \<^verbatim>\<open>"NaN"\<close>, \<^verbatim>\<open>"Infinity"\<close> or \<^verbatim>\<open>"-Infinity"\<close> for a
  value that is not finite. On a finite value it sets the sign aside, takes the integer
  \<open>n\<close> nearest to \<open>100 |x|\<close>, the larger one on a tie, and prints the sign followed by
  the decimal notation of \<open>n / 100\<close>. \<open>Hundredths k\<close> stands for the decimal string of
  \<open>k / 100\<close>, and \<open>TextNegZero\<close> for \<^verbatim>\<open>"-0.00"\<close>, the string printed for a negative value
  whose magnitude rounds to zero.

  The rounding is made on the exact rational. The source rounds the double nearest to
  it, which can give the neighbouring hundredth when \<open>100 |x|\<close> is within a rounding
  error of a tie (the double nearest to \<open>0.015\<close> prints as \<^verbatim>\<open>"0.01"\<close>); on a value
  that is a whole number of hundredths both agree. The exponent notation that
  \<^verbatim>\<open>toFixed\<close> uses from \<open>10^21\<close> on is not modelled.
\<close>

datatype fixed2 = Hundredths int | TextNegZero | TextNaN | TextInfinity | TextNegInfinity

fun toFixed2 :: "jsnum \<Rightarrow> fixed2" where
  "toFixed2 (Num x) =
     (if x < 0 then
        (let n = \<lfloor>(- x) * 100 + 1 / 2\<rfloor> in if n = 0 then TextNegZero else Hundredths (- n))
      else Hundredths \<lfloor>x * 100 + 1 / 2\<rfloor>)"
| "toFixed2 PosInfinity = TextInfinity"
| "toFixed2 NegInfinity = TextNegInfinity"
| "toFixed2 NaN = TextNaN"

text \<open>
  \<^verbatim>\<open>parseFloat(localStorage.getItem("timeTaken")) || 0.01\<close>: the stored value is parsed to
  a finite number or to NaN (\<open>None\<close>); NaN and zero are replaced by \<open>0.01\<close>.
\<close>

definition timeTaken_of :: "rat option \<Rightarrow> rat" where
  "timeTaken_of stored = (case stored of None \<Rightarrow> 1 / 100 | Some t \<Rightarrow> if t = 0 then 1 / 100 else t)"

text \<open>The numeric fields of a history record; the passage, the typed text and the date
  are carried along unchanged by the source and are left out.\<close>

record history_record =
  h_grossWPM :: fixed2
  h_netWPM :: fixed2
  h_accuracy :: fixed2
  h_errors :: nat

text \<open>\<^verbatim>\<open>history.push({...})\<close>\<close>

definition saveHistoryRecord ::
  "history_record list \<Rightarrow> fixed2 \<Rightarrow> fixed2 \<Rightarrow> fixed2 \<Rightarrow> nat \<Rightarrow> history_record list" where
  "saveHistoryRecord history gross net accuracy errs =
     history @ [\<lparr>h_grossWPM = gross, h_netWPM = net, h_accuracy = accuracy, h_errors = errs\<rparr>]"

text \<open>
  \<^verbatim>\<open>showResult\<close> from the two token sequences on (the tokenisation of lines 188 and 189
  is not modelled). It returns the history after \<^verbatim>\<open>saveHistoryRecord\<close> and the four
  values written into \<^verbatim>\<open>resultBox\<close>.
\<close>

definition showResult ::
  "history_record list \<Rightarrow> string list \<Rightarrow> string list \<Rightarrow> rat option \<Rightarrow>
   (history_record list \<times> history_record) option" where
  "showResult history originalWords typedWords stored = do {
     let timeTaken = timeTaken_of stored;
     let wordsTypedCount = length typedWords;
     let grossWPM = toFixed2 (js_div (of_nat wordsTypedCount) timeTaken);
     editRes \<leftarrow> wordEditDistance originalWords typedWords;
     let mistakes = errors editRes;
     let netWPM = toFixed2 (js_div (of_nat wordsTypedCount - of_nat mistakes) timeTaken);
     let accuracy =
       toFixed2 (times100 (js_div (of_nat wordsTypedCount - of_nat mistakes) (of_nat wordsTypedCount)));
     Some (saveHistoryRecord history grossWPM netWPM accuracy mistakes,
           \<lparr>h_grossWPM = grossWPM, h_netWPM = netWPM, h_accuracy = accuracy, h_errors = mistakes\<rparr>)
   }"

text \<open>The defining equations of the loops are unfolded by hand, one iteration at a time.\<close>

declare init_col.simps [simp del] init_row.simps [simp del] fill_row.simps [simp del]
  fill_rows.simps [simp del] traceback.simps [simp del] rest_original.simps [simp del]
  rest_typed.simps [simp del]

subsection \<open>Invariants of the matrix\<close>

text \<open>A matrix of \<open>m + 1\<close> rows of \<open>n + 1\<close> cells each.\<close>

definition shaped :: "nat \<Rightarrow> nat \<Rightarrow> matrix \<Rightarrow> bool" where
  "shaped m n dp \<longleftrightarrow> length dp = Suc m \<and> (\<forall>a\<le>m. length (dp ! a) = Suc n)"

text \<open>
  The cells already written when the fill is about to write cell \<open>(i, j)\<close>: row 0,
  column 0, the rows above \<open>i\<close> and the cells of row \<open>i\<close> left of \<open>j\<close>. They hold the
  distance of the specification.
\<close>

definition agrees :: "string list \<Rightarrow> string list \<Rightarrow> nat \<Rightarrow> nat \<Rightarrow> matrix \<Rightarrow> bool" where
  "agrees ow tw i j dp \<longleftrightarrow>
     shaped (length ow) (length tw) dp \<and>
     (\<forall>a\<le>length ow. \<forall>b\<le>length tw.
        (a = 0 \<or> b = 0 \<or> a < i \<or> (a = i \<and> b < j)) \<longrightarrow> dp ! a ! b = distance ow tw a b)"

definition filled :: "string list \<Rightarrow> string list \<Rightarrow> matrix \<Rightarrow> bool" where
  "filled ow tw dp \<longleftrightarrow>
     shaped (length ow) (length tw) dp \<and>
     (\<forall>a\<le>length ow. \<forall>b\<le>length tw. dp ! a ! b = distance ow tw a b)"

section \<open>Lemmas\<close>

subsection \<open>The matrix holds the distance of the specification\<close>


lemma distance_0_left: "distance ow tw 0 j = j"
  by (cases j) simp_all

lemma shaped_new_dp: "shaped m n (new_dp m n)"
  by (simp add: shaped_def new_dp_def del: replicate.simps)

lemma new_dp_nth: "a \<le> m \<Longrightarrow> b \<le> n \<Longrightarrow> new_dp m n ! a ! b = 0"
  by (simp add: new_dp_def del: replicate.simps)

lemma cell_shaped: "shaped m n dp \<Longrightarrow> i \<le> m \<Longrightarrow> j \<le> n \<Longrightarrow> cell dp i j = Some (dp ! i ! j)"
  by (simp add: shaped_def cell_def)

lemma set_cell_shaped:
  "shaped m n dp \<Longrightarrow> i \<le> m \<Longrightarrow> j \<le> n \<Longrightarrow> set_cell dp i j v = Some (dp[i := (dp ! i)[j := v]])"
  by (simp add: shaped_def set_cell_def)

lemma shaped_update: "shaped m n dp \<Longrightarrow> i \<le> m \<Longrightarrow> shaped m n (dp[i := (dp ! i)[j := v]])"
  by (auto simp: shaped_def nth_list_update)

lemma nth_update2:
  "shaped m n dp \<Longrightarrow> i \<le> m \<Longrightarrow> j \<le> n \<Longrightarrow> a \<le> m \<Longrightarrow> b \<le> n \<Longrightarrow>
   dp[i := (dp ! i)[j := v]] ! a ! b = (if a = i \<and> b = j then v else dp ! a ! b)"
  by (auto simp: shaped_def nth_list_update)

lemma init_col_shaped:
  "shaped m n dp \<Longrightarrow>
   \<exists>dp'. init_col m i dp = Some dp' \<and> shaped m n dp' \<and>
     (\<forall>a\<le>m. \<forall>b\<le>n. dp' ! a ! b = (if i \<le> a \<and> b = 0 then a else dp ! a ! b))"
proof (induction m i dp rule: init_col.induct)
  case (1 m i dp)
  show ?case
  proof (cases "i \<le> m")
    case False
    then show ?thesis using "1.prems" by (simp add: init_col.simps[of m i dp])
  next
    case True
    let ?dp = "dp[i := (dp ! i)[0 := i]]"
    have s: "set_cell dp i 0 i = Some ?dp"
      using "1.prems" True by (simp add: set_cell_shaped)
    have sh: "shaped m n ?dp" using "1.prems" True by (simp add: shaped_update)
    from "1.IH"[OF True s sh] obtain dp' where
      r: "init_col m (Suc i) ?dp = Some dp'" and sh': "shaped m n dp'"
      and v: "\<forall>a\<le>m. \<forall>b\<le>n. dp' ! a ! b = (if Suc i \<le> a \<and> b = 0 then a else ?dp ! a ! b)"
      by blast
    have "init_col m i dp = Some dp'"
      using True s r by (simp add: init_col.simps[of m i dp])
    moreover have "\<forall>a\<le>m. \<forall>b\<le>n. dp' ! a ! b = (if i \<le> a \<and> b = 0 then a else dp ! a ! b)"
      using v "1.prems" True by (auto simp: nth_update2)
    ultimately show ?thesis using sh' by blast
  qed
qed

lemma init_row_shaped:
  "shaped m n dp \<Longrightarrow>
   \<exists>dp'. init_row n j dp = Some dp' \<and> shaped m n dp' \<and>
     (\<forall>a\<le>m. \<forall>b\<le>n. dp' ! a ! b = (if a = 0 \<and> j \<le> b then b else dp ! a ! b))"
proof (induction n j dp rule: init_row.induct)
  case (1 n j dp)
  show ?case
  proof (cases "j \<le> n")
    case False
    then show ?thesis using "1.prems" by (simp add: init_row.simps[of n j dp])
  next
    case True
    let ?dp = "dp[0 := (dp ! 0)[j := j]]"
    have s: "set_cell dp 0 j j = Some ?dp"
      using "1.prems" True by (simp add: set_cell_shaped)
    have sh: "shaped m n ?dp" using "1.prems" by (simp add: shaped_update)
    from "1.IH"[OF True s sh] obtain dp' where
      r: "init_row n (Suc j) ?dp = Some dp'" and sh': "shaped m n dp'"
      and v: "\<forall>a\<le>m. \<forall>b\<le>n. dp' ! a ! b = (if a = 0 \<and> Suc j \<le> b then b else ?dp ! a ! b)"
      by blast
    have "init_row n j dp = Some dp'"
      using True s r by (simp add: init_row.simps[of n j dp])
    moreover have "\<forall>a\<le>m. \<forall>b\<le>n. dp' ! a ! b = (if a = 0 \<and> j \<le> b then b else dp ! a ! b)"
      using v "1.prems" True by (auto simp: nth_update2)
    ultimately show ?thesis using sh' by blast
  qed
qed

lemma init_agrees:
  "\<exists>dp0 dp. init_col (length ow) 0 (new_dp (length ow) (length tw)) = Some dp0 \<and>
     init_row (length tw) 0 dp0 = Some dp \<and> agrees ow tw 1 1 dp"
proof -
  let ?m = "length ow" and ?n = "length tw"
  from init_col_shaped[OF shaped_new_dp, where m = ?m and n = ?n and i = 0] obtain dp0 where
    c: "init_col ?m 0 (new_dp ?m ?n) = Some dp0" and sh0: "shaped ?m ?n dp0"
    and v0: "\<forall>a\<le>?m. \<forall>b\<le>?n. dp0 ! a ! b = (if 0 \<le> a \<and> b = 0 then a else new_dp ?m ?n ! a ! b)"
    by blast
  from init_row_shaped[OF sh0, where j = 0] obtain dp where
    r: "init_row ?n 0 dp0 = Some dp" and sh: "shaped ?m ?n dp"
    and v: "\<forall>a\<le>?m. \<forall>b\<le>?n. dp ! a ! b = (if a = 0 \<and> 0 \<le> b then b else dp0 ! a ! b)"
    by blast
  have "dp ! a ! b = distance ow tw a b"
    if ab: "a \<le> ?m" "b \<le> ?n" and z: "a = 0 \<or> b = 0" for a b
  proof (cases "a = 0")
    case True
    with v ab have "dp ! a ! b = b" by simp
    with True show ?thesis by (simp add: distance_0_left)
  next
    case False
    with z have b: "b = 0" by simp
    from False v ab have "dp ! a ! b = dp0 ! a ! b" by simp
    also from v0 ab b have "\<dots> = a" by simp
    finally show ?thesis using b by simp
  qed
  then have "agrees ow tw 1 1 dp"
    unfolding agrees_def using sh by auto
  with c r show ?thesis by blast
qed



lemma agrees_shaped: "agrees ow tw i j dp \<Longrightarrow> shaped (length ow) (length tw) dp"
  by (simp add: agrees_def)

lemma agrees_nth:
  "agrees ow tw i j dp \<Longrightarrow> a \<le> length ow \<Longrightarrow> b \<le> length tw \<Longrightarrow>
   a = 0 \<or> b = 0 \<or> a < i \<or> (a = i \<and> b < j) \<Longrightarrow> dp ! a ! b = distance ow tw a b"
  unfolding agrees_def by blast

lemma agreesI:
  "shaped (length ow) (length tw) dp \<Longrightarrow>
   (\<And>a b. a \<le> length ow \<Longrightarrow> b \<le> length tw \<Longrightarrow>
      a = 0 \<or> b = 0 \<or> a < i \<or> (a = i \<and> b < j) \<Longrightarrow> dp ! a ! b = distance ow tw a b) \<Longrightarrow>
   agrees ow tw i j dp"
  unfolding agrees_def by blast

lemma agrees_cell:
  "agrees ow tw i j dp \<Longrightarrow> a \<le> length ow \<Longrightarrow> b \<le> length tw \<Longrightarrow>
   a = 0 \<or> b = 0 \<or> a < i \<or> (a = i \<and> b < j) \<Longrightarrow> cell dp a b = Some (distance ow tw a b)"
  by (simp add: cell_shaped[OF agrees_shaped] agrees_nth)

lemma agrees_set_cell:
  assumes ag: "agrees ow tw i j dp" and i: "i \<le> length ow" and j: "j \<le> length tw"
  shows "\<exists>dp'. set_cell dp i j (distance ow tw i j) = Some dp' \<and> agrees ow tw i (Suc j) dp'"
proof -
  let ?dp = "dp[i := (dp ! i)[j := distance ow tw i j]]"
  from ag have sh: "shaped (length ow) (length tw) dp" by (simp add: agrees_def)
  have s: "set_cell dp i j (distance ow tw i j) = Some ?dp"
    using sh i j by (rule set_cell_shaped)
  have sh': "shaped (length ow) (length tw) ?dp"
    using sh i by (rule shaped_update)
  have "?dp ! a ! b = distance ow tw a b"
    if ab: "a \<le> length ow" "b \<le> length tw"
      and w: "a = 0 \<or> b = 0 \<or> a < i \<or> (a = i \<and> b < Suc j)" for a b
  proof (cases "a = i \<and> b = j")
    case True
    then show ?thesis using sh i j by (simp add: nth_update2)
  next
    case False
    with w have "a = 0 \<or> b = 0 \<or> a < i \<or> (a = i \<and> b < j)" by auto
    with ag ab have "dp ! a ! b = distance ow tw a b" by (rule agrees_nth)
    with False show ?thesis using sh i j ab by (simp add: nth_update2)
  qed
  with sh' have "agrees ow tw i (Suc j) ?dp" by (rule agreesI)
  with s show ?thesis by blast
qed

lemma word_at_in: "k < length ws \<Longrightarrow> word_at ws k = Some (ws ! k)"
  by (simp add: word_at_def)

lemma fill_cell_agrees:
  assumes ag: "agrees ow tw (Suc i) (Suc j) dp" and i: "Suc i \<le> length ow" and j: "Suc j \<le> length tw"
  shows "\<exists>dp'. fill_cell ow tw (Suc i) (Suc j) dp = Some dp' \<and> agrees ow tw (Suc i) (Suc (Suc j)) dp'"
proof -
  have d: "cell dp i j = Some (distance ow tw i j)"
    using ag i j by (simp add: agrees_cell)
  have u: "cell dp i (Suc j) = Some (distance ow tw i (Suc j))"
    using ag i j by (simp add: agrees_cell)
  have l: "cell dp (Suc i) j = Some (distance ow tw (Suc i) j)"
    using ag i j by (simp add: agrees_cell)
  have "fill_cell ow tw (Suc i) (Suc j) dp = set_cell dp (Suc i) (Suc j) (distance ow tw (Suc i) (Suc j))"
    using i j d u l by (simp add: fill_cell_def word_at_in min.commute min.left_commute)
  with agrees_set_cell[OF ag i j] show ?thesis by simp
qed

lemma fill_row_agrees:
  "agrees ow tw (Suc i) j dp \<Longrightarrow> Suc i \<le> length ow \<Longrightarrow> 0 < j \<Longrightarrow>
   \<exists>dp'. fill_row ow tw (Suc i) j dp = Some dp' \<and> agrees ow tw (Suc (Suc i)) 1 dp'"
proof (induction "Suc (length tw) - j" arbitrary: j dp)
  case 0
  then have "\<not> j \<le> length tw" by simp
  then have r: "fill_row ow tw (Suc i) j dp = Some dp"
    by (simp add: fill_row.simps[of ow tw "Suc i" j dp])
  have "agrees ow tw (Suc (Suc i)) 1 dp"
  proof (rule agreesI)
    show "shaped (length ow) (length tw) dp" using "0.prems"(1) by (rule agrees_shaped)
  next
    fix a b
    assume ab: "a \<le> length ow" "b \<le> length tw"
      and w: "a = 0 \<or> b = 0 \<or> a < Suc (Suc i) \<or> (a = Suc (Suc i) \<and> b < 1)"
    with \<open>\<not> j \<le> length tw\<close> have "a = 0 \<or> b = 0 \<or> a < Suc i \<or> (a = Suc i \<and> b < j)"
      by auto
    with "0.prems"(1) ab show "dp ! a ! b = distance ow tw a b" by (rule agrees_nth)
  qed
  with r show ?case by simp
next
  case (Suc k)
  then have jn: "j \<le> length tw" by simp
  from \<open>0 < j\<close> obtain j' where j': "j = Suc j'" by (cases j) auto
  from fill_cell_agrees[of ow tw i j' dp] Suc.prems jn j'
  obtain dp1 where c: "fill_cell ow tw (Suc i) j dp = Some dp1"
    and ag1: "agrees ow tw (Suc i) (Suc j) dp1" by auto
  have "k = Suc (length tw) - Suc j" using Suc.hyps(2) by simp
  from Suc.hyps(1)[OF this ag1 Suc.prems(2)] obtain dp' where
    r: "fill_row ow tw (Suc i) (Suc j) dp1 = Some dp'" and ag': "agrees ow tw (Suc (Suc i)) 1 dp'"
    by auto
  have "fill_row ow tw (Suc i) j dp = Some dp'"
    using jn c r by (simp add: fill_row.simps[of ow tw "Suc i" j dp])
  with ag' show ?case by simp
qed

lemma fill_rows_filled:
  "agrees ow tw i 1 dp \<Longrightarrow> 0 < i \<Longrightarrow>
   \<exists>dp'. fill_rows ow tw i dp = Some dp' \<and> filled ow tw dp'"
proof (induction "Suc (length ow) - i" arbitrary: i dp)
  case 0
  then have ni: "\<not> i \<le> length ow" by simp
  then have r: "fill_rows ow tw i dp = Some dp"
    by (simp add: fill_rows.simps[of ow tw i dp])
  have "dp ! a ! b = distance ow tw a b" if ab: "a \<le> length ow" "b \<le> length tw" for a b
  proof -
    from ni ab have "a = 0 \<or> b = 0 \<or> a < i \<or> (a = i \<and> b < 1)" by auto
    with "0.prems"(1) ab show ?thesis by (rule agrees_nth)
  qed
  with agrees_shaped[OF "0.prems"(1)] have "filled ow tw dp"
    by (simp add: filled_def)
  with r show ?case by simp
next
  case (Suc k)
  then have im: "i \<le> length ow" by simp
  from \<open>0 < i\<close> obtain i' where i': "i = Suc i'" by (cases i) auto
  from fill_row_agrees[of ow tw i' 1 dp] Suc.prems im i'
  obtain dp1 where c: "fill_row ow tw i 1 dp = Some dp1"
    and ag1: "agrees ow tw (Suc i) 1 dp1" by auto
  have "k = Suc (length ow) - Suc i" using Suc.hyps(2) by simp
  from Suc.hyps(1)[OF this ag1] obtain dp' where
    r: "fill_rows ow tw (Suc i) dp1 = Some dp'" and ag': "filled ow tw dp'"
    by auto
  have "fill_rows ow tw i dp = Some dp'"
    using im c r by (simp add: fill_rows.simps[of ow tw i dp])
  with ag' show ?case by simp
qed

lemma build_dp_filled: "\<exists>dp. build_dp ow tw = Some dp \<and> filled ow tw dp"
proof -
  from init_agrees[of ow tw] obtain dp0 dp1 where
    c: "init_col (length ow) 0 (new_dp (length ow) (length tw)) = Some dp0"
    and r: "init_row (length tw) 0 dp0 = Some dp1" and ag: "agrees ow tw 1 1 dp1"
    by blast
  from fill_rows_filled[OF ag] obtain dp where
    f: "fill_rows ow tw 1 dp1 = Some dp" and co: "filled ow tw dp" by auto
  have "build_dp ow tw = Some dp"
    using c r f by (simp add: build_dp_def)
  with co show ?thesis by simp
qed



lemma filled_shaped: "filled ow tw dp \<Longrightarrow> shaped (length ow) (length tw) dp"
  by (simp add: filled_def)

lemma filled_nth:
  "filled ow tw dp \<Longrightarrow> a \<le> length ow \<Longrightarrow> b \<le> length tw \<Longrightarrow> dp ! a ! b = distance ow tw a b"
  by (simp add: filled_def)

lemma filled_cell:
  "filled ow tw dp \<Longrightarrow> a \<le> length ow \<Longrightarrow> b \<le> length tw \<Longrightarrow>
   cell dp a b = Some (distance ow tw a b)"
  by (simp add: cell_shaped[OF filled_shaped] filled_nth)

lemma mark_in: "k < length ms \<Longrightarrow> mark ms k = Some (ms[k := True])"
  by (simp add: mark_def)

lemma traceback_stop:
  "tb_i st = 0 \<or> tb_j st = 0 \<Longrightarrow> traceback ow tw dp st = Some st"
  by (auto simp: traceback.simps[of ow tw dp st])

lemma traceback_unfold:
  assumes co: "filled ow tw dp"
    and ij: "tb_i st = Suc i" "tb_j st = Suc j"
    and le: "Suc i \<le> length ow" "Suc j \<le> length tw"
    and len: "length (tb_originalMark st) = length ow" "length (tb_typedMark st) = length tw"
  shows "traceback ow tw dp st =
    (if ow ! i = tw ! j then
       traceback ow tw dp (st\<lparr>tb_i := i, tb_j := j, tb_trace := tb_trace st @ [Match]\<rparr>)
     else if distance ow tw (Suc i) (Suc j) = distance ow tw i j + 1 then
       traceback ow tw dp
         (st\<lparr>tb_i := i, tb_j := j, tb_originalMark := (tb_originalMark st)[i := True],
             tb_typedMark := (tb_typedMark st)[j := True],
             tb_trace := tb_trace st @ [Substitution]\<rparr>)
     else if distance ow tw (Suc i) (Suc j) = distance ow tw i (Suc j) + 1 then
       traceback ow tw dp
         (st\<lparr>tb_i := i, tb_originalMark := (tb_originalMark st)[i := True],
             tb_trace := tb_trace st @ [Deletion]\<rparr>)
     else if distance ow tw (Suc i) (Suc j) = distance ow tw (Suc i) j + 1 then
       traceback ow tw dp
         (st\<lparr>tb_j := j, tb_typedMark := (tb_typedMark st)[j := True],
             tb_trace := tb_trace st @ [Insertion]\<rparr>)
     else
       traceback ow tw dp (st\<lparr>tb_i := i, tb_j := j, tb_trace := tb_trace st @ [Fallback]\<rparr>))"
proof -
  have w: "word_at ow i = Some (ow ! i)" "word_at tw j = Some (tw ! j)"
    using le by (simp_all add: word_at_in)
  have c: "cell dp (Suc i) (Suc j) = Some (distance ow tw (Suc i) (Suc j))"
    "cell dp i j = Some (distance ow tw i j)"
    "cell dp i (Suc j) = Some (distance ow tw i (Suc j))"
    "cell dp (Suc i) j = Some (distance ow tw (Suc i) j)"
    using co le by (simp_all add: filled_cell)
  have m: "mark (tb_originalMark st) i = Some ((tb_originalMark st)[i := True])"
    "mark (tb_typedMark st) j = Some ((tb_typedMark st)[j := True])"
    using le len by (simp_all add: mark_in)
  show ?thesis
    by (subst traceback.simps) (simp add: Let_def ij w c m del: distance.simps)
qed



lemma distance_mismatch:
  "ow ! i \<noteq> tw ! j \<Longrightarrow>
   distance ow tw (Suc i) (Suc j) = distance ow tw i j + 1 \<or>
   distance ow tw (Suc i) (Suc j) = distance ow tw i (Suc j) + 1 \<or>
   distance ow tw (Suc i) (Suc j) = distance ow tw (Suc i) j + 1"
  by (simp add: min_def)

lemma traceback_total:
  assumes co: "filled ow tw dp"
  shows "tb_i st \<le> length ow \<Longrightarrow> tb_j st \<le> length tw \<Longrightarrow>
    length (tb_originalMark st) = length ow \<Longrightarrow> length (tb_typedMark st) = length tw \<Longrightarrow>
    \<exists>st'. traceback ow tw dp st = Some st' \<and> (tb_i st' = 0 \<or> tb_j st' = 0) \<and>
      tb_i st' \<le> tb_i st \<and> tb_j st' \<le> tb_j st \<and>
      length (tb_originalMark st') = length ow \<and> length (tb_typedMark st') = length tw \<and>
      (Fallback \<in> set (tb_trace st') \<longrightarrow> Fallback \<in> set (tb_trace st)) \<and>
      length (tb_trace st') + tb_i st' + tb_j st' \<le> length (tb_trace st) + tb_i st + tb_j st"
proof (induction "tb_i st + tb_j st" arbitrary: st rule: less_induct)
  case less
  show ?case
  proof (cases "tb_i st = 0 \<or> tb_j st = 0")
    case True
    then have "traceback ow tw dp st = Some st" by (rule traceback_stop)
    with True less.prems show ?thesis by simp
  next
    case False
    then obtain i j where ij: "tb_i st = Suc i" "tb_j st = Suc j"
      by (cases "tb_i st"; cases "tb_j st") auto
    with less.prems have le: "Suc i \<le> length ow" "Suc j \<le> length tw" by simp_all
    note u = traceback_unfold[OF co ij le less.prems(3,4)]
    have step: "\<exists>st'. traceback ow tw dp st = Some st' \<and> (tb_i st' = 0 \<or> tb_j st' = 0) \<and>
      tb_i st' \<le> tb_i st \<and> tb_j st' \<le> tb_j st \<and>
      length (tb_originalMark st') = length ow \<and> length (tb_typedMark st') = length tw \<and>
      (Fallback \<in> set (tb_trace st') \<longrightarrow> Fallback \<in> set (tb_trace st)) \<and>
      length (tb_trace st') + tb_i st' + tb_j st' \<le> length (tb_trace st) + tb_i st + tb_j st"
      if eq: "traceback ow tw dp st = traceback ow tw dp nx"
        and dec: "tb_i nx + tb_j nx < tb_i st + tb_j st" "tb_i nx \<le> tb_i st" "tb_j nx \<le> tb_j st"
        and len: "length (tb_originalMark nx) = length ow" "length (tb_typedMark nx) = length tw"
        and tr: "Fallback \<in> set (tb_trace nx) \<longrightarrow> Fallback \<in> set (tb_trace st)"
        and ln: "length (tb_trace nx) + tb_i nx + tb_j nx \<le> length (tb_trace st) + tb_i st + tb_j st"
      for nx
    proof -
      from dec less.prems have b: "tb_i nx \<le> length ow" "tb_j nx \<le> length tw" by simp_all
      from less.hyps[OF dec(1) b len] obtain st' where
        r: "traceback ow tw dp nx = Some st'" and z: "tb_i st' = 0 \<or> tb_j st' = 0"
        and d: "tb_i st' \<le> tb_i nx" "tb_j st' \<le> tb_j nx"
        and l: "length (tb_originalMark st') = length ow" "length (tb_typedMark st') = length tw"
        and t: "Fallback \<in> set (tb_trace st') \<longrightarrow> Fallback \<in> set (tb_trace nx)"
        and n: "length (tb_trace st') + tb_i st' + tb_j st' \<le> length (tb_trace nx) + tb_i nx + tb_j nx"
        by blast
      from d dec have "tb_i st' \<le> tb_i st" "tb_j st' \<le> tb_j st" by simp_all
      moreover from n ln
      have "length (tb_trace st') + tb_i st' + tb_j st' \<le> length (tb_trace st) + tb_i st + tb_j st"
        by simp
      ultimately show ?thesis using eq r z l t tr by simp
    qed
    show ?thesis
    proof (cases "ow ! i = tw ! j")
      case True
      with u have "traceback ow tw dp st =
        traceback ow tw dp (st\<lparr>tb_i := i, tb_j := j, tb_trace := tb_trace st @ [Match]\<rparr>)"
        by (simp del: distance.simps)
      then show ?thesis by (rule step) (simp_all add: ij less.prems)
    next
      case ne: False
      show ?thesis
      proof (cases "distance ow tw (Suc i) (Suc j) = distance ow tw i j + 1")
        case True
        with u ne have "traceback ow tw dp st =
          traceback ow tw dp
           (st\<lparr>tb_i := i, tb_j := j, tb_originalMark := (tb_originalMark st)[i := True],
             tb_typedMark := (tb_typedMark st)[j := True],
             tb_trace := tb_trace st @ [Substitution]\<rparr>)"
          by (simp del: distance.simps)
        then show ?thesis by (rule step) (simp_all add: ij less.prems)
      next
        case ns: False
        show ?thesis
        proof (cases "distance ow tw (Suc i) (Suc j) = distance ow tw i (Suc j) + 1")
          case True
          with u ne ns have "traceback ow tw dp st =
            traceback ow tw dp
              (st\<lparr>tb_i := i, tb_originalMark := (tb_originalMark st)[i := True],
                 tb_trace := tb_trace st @ [Deletion]\<rparr>)"
            by (simp del: distance.simps)
          then show ?thesis by (rule step) (simp_all add: ij less.prems)
        next
          case nd: False
          with distance_mismatch[OF ne] ns
          have ins: "distance ow tw (Suc i) (Suc j) = distance ow tw (Suc i) j + 1" by blast
          with u ne ns nd have "traceback ow tw dp st =
            traceback ow tw dp
              (st\<lparr>tb_j := j, tb_typedMark := (tb_typedMark st)[j := True],
                 tb_trace := tb_trace st @ [Insertion]\<rparr>)"
            by (simp del: distance.simps)
          then show ?thesis by (rule step) (simp_all add: ij less.prems)
        qed
      qed
    qed
  qed
qed



lemma marked_prefix_step:
  "k < length ms \<Longrightarrow>
   replicate k True @ drop k (ms[k := True]) = replicate (Suc k) True @ drop (Suc k) ms"
proof -
  assume k: "k < length ms"
  then have "drop k (ms[k := True]) = True # drop (Suc k) ms"
    by (simp add: Cons_nth_drop_Suc[symmetric, of k "ms[k := True]"])
  then show ?thesis by (simp add: replicate_append_same)
qed

lemma rest_original_marks:
  "tb_i st \<le> length (tb_originalMark st) \<Longrightarrow>
   rest_original st =
     Some (st\<lparr>tb_originalMark := replicate (tb_i st) True @ drop (tb_i st) (tb_originalMark st),
             tb_i := 0\<rparr>)"
proof (induction "tb_i st" arbitrary: st)
  case 0
  then show ?case by (simp add: rest_original.simps[of st])
next
  case (Suc k)
  let ?om = "(tb_originalMark st)[k := True]"
  let ?st = "st\<lparr>tb_originalMark := ?om, tb_i := k\<rparr>"
  from Suc have k: "k < length (tb_originalMark st)" and i: "tb_i st = Suc k" by simp_all
  have "rest_original st = rest_original ?st"
    using i k by (simp add: rest_original.simps[of st] mark_in)
  also have "\<dots> = Some (?st\<lparr>tb_originalMark := replicate (tb_i ?st) True @ drop (tb_i ?st) (tb_originalMark ?st), tb_i := 0\<rparr>)"
    using k by (intro Suc.hyps(1)) simp_all
  finally show ?case using i k by (simp add: marked_prefix_step del: replicate.simps)
qed

lemma rest_typed_marks:
  "tb_j st \<le> length (tb_typedMark st) \<Longrightarrow>
   rest_typed st =
     Some (st\<lparr>tb_typedMark := replicate (tb_j st) True @ drop (tb_j st) (tb_typedMark st),
             tb_j := 0\<rparr>)"
proof (induction "tb_j st" arbitrary: st)
  case 0
  then show ?case by (simp add: rest_typed.simps[of st])
next
  case (Suc k)
  let ?tm = "(tb_typedMark st)[k := True]"
  let ?st = "st\<lparr>tb_typedMark := ?tm, tb_j := k\<rparr>"
  from Suc have k: "k < length (tb_typedMark st)" and j: "tb_j st = Suc k" by simp_all
  have "rest_typed st = rest_typed ?st"
    using j k by (simp add: rest_typed.simps[of st] mark_in)
  also have "\<dots> = Some (?st\<lparr>tb_typedMark := replicate (tb_j ?st) True @ drop (tb_j ?st) (tb_typedMark ?st), tb_j := 0\<rparr>)"
    using k by (intro Suc.hyps(1)) simp_all
  finally show ?case using j k by (simp add: marked_prefix_step del: replicate.simps)
qed

lemma wordEditDistance_eq:
  assumes b: "build_dp ow tw = Some dp" and co: "filled ow tw dp"
    and t: "traceback ow tw dp (tb_start (length ow) (length tw)) = Some st"
    and i: "tb_i st \<le> length (tb_originalMark st)"
    and j: "tb_j st \<le> length (tb_typedMark st)"
  shows "wordEditDistance ow tw =
    Some \<lparr>errors = distance ow tw (length ow) (length tw),
          originalMark = replicate (tb_i st) True @ drop (tb_i st) (tb_originalMark st),
          typedMark = replicate (tb_j st) True @ drop (tb_j st) (tb_typedMark st)\<rparr>"
proof -
  let ?s1 = "st\<lparr>tb_originalMark := replicate (tb_i st) True @ drop (tb_i st) (tb_originalMark st),
             tb_i := 0\<rparr>"
  have r1: "rest_original st = Some ?s1" using i by (rule rest_original_marks)
  have r2: "rest_typed ?s1 =
    Some (?s1\<lparr>tb_typedMark := replicate (tb_j st) True @ drop (tb_j st) (tb_typedMark st), tb_j := 0\<rparr>)"
    using rest_typed_marks[of ?s1] j by simp
  have c: "cell dp (length ow) (length tw) = Some (distance ow tw (length ow) (length tw))"
    using co by (simp add: filled_cell)
  show ?thesis
    by (simp add: wordEditDistance_def b t r1 r2 c)
qed

subsection \<open>The result of a run\<close>


lemma wordEditDistance_run:
  "\<exists>st::tb_state. wordEditDistance ow tw =
      Some \<lparr>errors = distance ow tw (length ow) (length tw),
            originalMark = replicate (tb_i st) True @ drop (tb_i st) (tb_originalMark st),
            typedMark = replicate (tb_j st) True @ drop (tb_j st) (tb_typedMark st)\<rparr> \<and>
     traceback_moves ow tw = Some (tb_trace st) \<and>
     tb_i st \<le> length ow \<and> tb_j st \<le> length tw \<and>
     length (tb_originalMark st) = length ow \<and> length (tb_typedMark st) = length tw \<and>
     Fallback \<notin> set (tb_trace st) \<and> length (tb_trace st) \<le> length ow + length tw"
proof -
  let ?m = "length ow" and ?n = "length tw"
  from build_dp_filled[of ow tw] obtain dp where
    b: "build_dp ow tw = Some dp" and co: "filled ow tw dp" by blast
  from traceback_total[OF co, of "tb_start ?m ?n"] obtain st where
    t: "traceback ow tw dp (tb_start ?m ?n) = Some st"
    and i: "tb_i st \<le> ?m" and j: "tb_j st \<le> ?n"
    and l: "length (tb_originalMark st) = ?m" "length (tb_typedMark st) = ?n"
    and f: "Fallback \<notin> set (tb_trace st)"
    and n: "length (tb_trace st) + tb_i st + tb_j st \<le> ?m + ?n"
    by (auto simp: tb_start_def)
  have "wordEditDistance ow tw =
      Some \<lparr>errors = distance ow tw ?m ?n,
            originalMark = replicate (tb_i st) True @ drop (tb_i st) (tb_originalMark st),
            typedMark = replicate (tb_j st) True @ drop (tb_j st) (tb_typedMark st)\<rparr>"
    using b co t i j l by (intro wordEditDistance_eq) simp_all
  moreover have "traceback_moves ow tw = Some (tb_trace st)"
    by (simp add: traceback_moves_def b t)
  moreover from n have "length (tb_trace st) \<le> ?m + ?n" by simp
  ultimately show ?thesis using i j l f by (intro exI[where x = st]) simp
qed

lemma errors_distance:
  "\<exists>r. wordEditDistance ow tw = Some r \<and> errors r = distance ow tw (length ow) (length tw)"
  using wordEditDistance_run[of ow tw] by auto

lemma distance_sym: "distance a b i j = distance b a j i"
proof (induction a b i j rule: distance.induct)
  case (1 reference typed i)
  then show ?case by (simp add: distance_0_left)
next
  case (2 reference typed j)
  then show ?case by simp
next
  case (3 reference typed i j)
  then show ?case by (auto simp: min.commute min.left_commute)
qed

lemma distance_le_max: "distance a b i j \<le> max i j"
proof (induction a b i j rule: distance.induct)
  case (3 reference typed i j)
  then show ?case by (auto simp: min_def max_def)
qed simp_all

lemma distance_same: "distance a a i i = 0"
  by (induction i) simp_all

subsection \<open>Empty and identical inputs\<close>


lemma wordEditDistance_Nil_left:
  "wordEditDistance [] tw =
     Some \<lparr>errors = length tw, originalMark = [], typedMark = replicate (length tw) True\<rparr>"
proof -
  from build_dp_filled[of "[]" tw] obtain dp where
    b: "build_dp [] tw = Some dp" and co: "filled [] tw dp" by blast
  have t: "traceback [] tw dp (tb_start (length []) (length tw)) = Some (tb_start 0 (length tw))"
    by (simp add: traceback_stop tb_start_def)
  from wordEditDistance_eq[OF b co t] show ?thesis
    by (simp add: tb_start_def distance_0_left)
qed

lemma wordEditDistance_Nil_right:
  "wordEditDistance ow [] =
     Some \<lparr>errors = length ow, originalMark = replicate (length ow) True, typedMark = []\<rparr>"
proof -
  from build_dp_filled[of ow "[]"] obtain dp where
    b: "build_dp ow [] = Some dp" and co: "filled ow [] dp" by blast
  have t: "traceback ow [] dp (tb_start (length ow) (length [])) = Some (tb_start (length ow) 0)"
    by (simp add: traceback_stop tb_start_def)
  from wordEditDistance_eq[OF b co t] show ?thesis
    by (simp add: tb_start_def)
qed

lemma traceback_same:
  assumes co: "filled a a dp"
  shows "tb_i st = k \<Longrightarrow> tb_j st = k \<Longrightarrow> k \<le> length a \<Longrightarrow>
    length (tb_originalMark st) = length a \<Longrightarrow> length (tb_typedMark st) = length a \<Longrightarrow>
    traceback a a dp st =
      Some (st\<lparr>tb_i := 0, tb_j := 0, tb_trace := tb_trace st @ replicate k Match\<rparr>)"
proof (induction k arbitrary: st)
  case 0
  then show ?case by (simp add: traceback_stop)
next
  case (Suc k)
  let ?st = "st\<lparr>tb_i := k, tb_j := k, tb_trace := tb_trace st @ [Match]\<rparr>"
  have "traceback a a dp st = traceback a a dp ?st"
    using traceback_unfold[OF co Suc.prems(1,2) _ _ Suc.prems(4,5)] Suc.prems(3)
    by (simp del: distance.simps)
  also have "\<dots> = Some (?st\<lparr>tb_i := 0, tb_j := 0, tb_trace := tb_trace ?st @ replicate k Match\<rparr>)"
    using Suc.prems by (intro Suc.IH) simp_all
  finally show ?case by (simp add: replicate_app_Cons_same)
qed

lemma wordEditDistance_same:
  "wordEditDistance a a =
     Some \<lparr>errors = 0, originalMark = replicate (length a) False,
           typedMark = replicate (length a) False\<rparr>"
proof -
  from build_dp_filled[of a a] obtain dp where
    b: "build_dp a a = Some dp" and co: "filled a a dp" by blast
  let ?s = "tb_start (length a) (length a)"
  have t: "traceback a a dp ?s =
    Some (?s\<lparr>tb_i := 0, tb_j := 0, tb_trace := tb_trace ?s @ replicate (length a) Match\<rparr>)"
    by (rule traceback_same[OF co]) (simp_all add: tb_start_def)
  from wordEditDistance_eq[OF b co t] show ?thesis
    by (simp add: tb_start_def distance_same)
qed

subsection \<open>The traceback of the code is the walk of the specification\<close>

lemma mark_below:
  "j \<le> length tm \<Longrightarrow>
   map (\<lambda>k. k < j \<or> tm ! k) [0..<length tm] = replicate j True @ drop j tm"
  by (rule nth_equalityI) (auto simp: nth_append)

lemma spec_traceback_boundary:
  "i = 0 \<or> j = 0 \<Longrightarrow> i \<le> length rm \<Longrightarrow> j \<le> length tm \<Longrightarrow>
   spec_traceback ow tw i j rm tm = (replicate i True @ drop i rm, replicate j True @ drop j tm)"
  by (cases i; cases j) (simp_all add: mark_below map_nth)

lemma traceback_refines:
  assumes co: "filled ow tw dp"
  shows "tb_i st \<le> length ow \<Longrightarrow> tb_j st \<le> length tw \<Longrightarrow>
    length (tb_originalMark st) = length ow \<Longrightarrow> length (tb_typedMark st) = length tw \<Longrightarrow>
    \<exists>st'. traceback ow tw dp st = Some st' \<and>
      tb_i st' \<le> length (tb_originalMark st') \<and> tb_j st' \<le> length (tb_typedMark st') \<and>
      (replicate (tb_i st') True @ drop (tb_i st') (tb_originalMark st'),
       replicate (tb_j st') True @ drop (tb_j st') (tb_typedMark st')) =
      spec_traceback ow tw (tb_i st) (tb_j st) (tb_originalMark st) (tb_typedMark st)"
proof (induction "tb_i st + tb_j st" arbitrary: st rule: less_induct)
  case less
  show ?case
  proof (cases "tb_i st = 0 \<or> tb_j st = 0")
    case True
    then have "traceback ow tw dp st = Some st" by (rule traceback_stop)
    moreover have "spec_traceback ow tw (tb_i st) (tb_j st) (tb_originalMark st) (tb_typedMark st) =
      (replicate (tb_i st) True @ drop (tb_i st) (tb_originalMark st),
       replicate (tb_j st) True @ drop (tb_j st) (tb_typedMark st))"
      using True less.prems by (intro spec_traceback_boundary) simp_all
    ultimately show ?thesis using less.prems by simp
  next
    case False
    then obtain i j where ij: "tb_i st = Suc i" "tb_j st = Suc j"
      by (cases "tb_i st"; cases "tb_j st") auto
    with less.prems have le: "Suc i \<le> length ow" "Suc j \<le> length tw" by simp_all
    note u = traceback_unfold[OF co ij le less.prems(3,4)]
    note sp = spec_traceback.simps(3)[of ow tw i j "tb_originalMark st" "tb_typedMark st"]
    have step: "\<exists>st'. traceback ow tw dp st = Some st' \<and>
      tb_i st' \<le> length (tb_originalMark st') \<and> tb_j st' \<le> length (tb_typedMark st') \<and>
      (replicate (tb_i st') True @ drop (tb_i st') (tb_originalMark st'),
       replicate (tb_j st') True @ drop (tb_j st') (tb_typedMark st')) =
      spec_traceback ow tw (tb_i st) (tb_j st) (tb_originalMark st) (tb_typedMark st)"
      if eq: "traceback ow tw dp st = traceback ow tw dp nx"
        and se: "spec_traceback ow tw (Suc i) (Suc j) (tb_originalMark st) (tb_typedMark st) =
          spec_traceback ow tw (tb_i nx) (tb_j nx) (tb_originalMark nx) (tb_typedMark nx)"
        and dec: "tb_i nx + tb_j nx < tb_i st + tb_j st" "tb_i nx \<le> tb_i st" "tb_j nx \<le> tb_j st"
        and len: "length (tb_originalMark nx) = length ow" "length (tb_typedMark nx) = length tw"
      for nx
    proof -
      from dec less.prems have b: "tb_i nx \<le> length ow" "tb_j nx \<le> length tw" by simp_all
      from less.hyps[OF dec(1) b len] obtain st' where
        r: "traceback ow tw dp nx = Some st'"
        and l: "tb_i st' \<le> length (tb_originalMark st')" "tb_j st' \<le> length (tb_typedMark st')"
        and m: "(replicate (tb_i st') True @ drop (tb_i st') (tb_originalMark st'),
            replicate (tb_j st') True @ drop (tb_j st') (tb_typedMark st')) =
          spec_traceback ow tw (tb_i nx) (tb_j nx) (tb_originalMark nx) (tb_typedMark nx)"
        by blast
      from eq r have "traceback ow tw dp st = Some st'" by simp
      moreover from m se ij have "(replicate (tb_i st') True @ drop (tb_i st') (tb_originalMark st'),
            replicate (tb_j st') True @ drop (tb_j st') (tb_typedMark st')) =
          spec_traceback ow tw (tb_i st) (tb_j st) (tb_originalMark st) (tb_typedMark st)"
        by simp
      ultimately show ?thesis using l by blast
    qed
    show ?thesis
    proof (cases "ow ! i = tw ! j")
      case True
      let ?nx = "st\<lparr>tb_i := i, tb_j := j, tb_trace := tb_trace st @ [Match]\<rparr>"
      from u True have "traceback ow tw dp st = traceback ow tw dp ?nx"
        by (simp del: distance.simps)
      moreover from sp True
      have "spec_traceback ow tw (Suc i) (Suc j) (tb_originalMark st) (tb_typedMark st) =
        spec_traceback ow tw (tb_i ?nx) (tb_j ?nx) (tb_originalMark ?nx) (tb_typedMark ?nx)"
        by (simp del: distance.simps spec_traceback.simps)
      ultimately show ?thesis by (rule step) (simp_all add: ij less.prems)
    next
      case ne: False
      show ?thesis
      proof (cases "distance ow tw (Suc i) (Suc j) = distance ow tw i j + 1")
        case True
        let ?nx = "st\<lparr>tb_i := i, tb_j := j, tb_originalMark := (tb_originalMark st)[i := True],
             tb_typedMark := (tb_typedMark st)[j := True],
             tb_trace := tb_trace st @ [Substitution]\<rparr>"
        from u ne True have "traceback ow tw dp st = traceback ow tw dp ?nx"
          by (simp del: distance.simps)
        moreover from sp ne True
        have "spec_traceback ow tw (Suc i) (Suc j) (tb_originalMark st) (tb_typedMark st) =
          spec_traceback ow tw (tb_i ?nx) (tb_j ?nx) (tb_originalMark ?nx) (tb_typedMark ?nx)"
          by (simp del: distance.simps spec_traceback.simps)
        ultimately show ?thesis by (rule step) (simp_all add: ij less.prems)
      next
        case ns: False
        show ?thesis
        proof (cases "distance ow tw (Suc i) (Suc j) = distance ow tw i (Suc j) + 1")
          case True
          let ?nx = "st\<lparr>tb_i := i, tb_originalMark := (tb_originalMark st)[i := True],
                 tb_trace := tb_trace st @ [Deletion]\<rparr>"
          from u ne ns True have "traceback ow tw dp st = traceback ow tw dp ?nx"
            by (simp del: distance.simps)
          moreover from sp ne ns True
          have "spec_traceback ow tw (Suc i) (Suc j) (tb_originalMark st) (tb_typedMark st) =
            spec_traceback ow tw (tb_i ?nx) (tb_j ?nx) (tb_originalMark ?nx) (tb_typedMark ?nx)"
            by (simp add: ij del: distance.simps spec_traceback.simps)
          ultimately show ?thesis by (rule step) (simp_all add: ij less.prems)
        next
          case nd: False
          with distance_mismatch[OF ne] ns
          have ins: "distance ow tw (Suc i) (Suc j) = distance ow tw (Suc i) j + 1" by blast
          let ?nx = "st\<lparr>tb_j := j, tb_typedMark := (tb_typedMark st)[j := True],
                 tb_trace := tb_trace st @ [Insertion]\<rparr>"
          from u ne ns nd ins have "traceback ow tw dp st = traceback ow tw dp ?nx"
            by (simp del: distance.simps)
          moreover from sp ne ns nd ins
          have "spec_traceback ow tw (Suc i) (Suc j) (tb_originalMark st) (tb_typedMark st) =
            spec_traceback ow tw (tb_i ?nx) (tb_j ?nx) (tb_originalMark ?nx) (tb_typedMark ?nx)"
            by (simp add: ij del: distance.simps spec_traceback.simps)
          ultimately show ?thesis by (rule step) (simp_all add: ij less.prems)
        qed
      qed
    qed
  qed
qed

lemma wordEditDistance_refines:
  "wordEditDistance ow tw =
     Some \<lparr>errors = distance ow tw (length ow) (length tw),
           originalMark = fst (spec_marks ow tw), typedMark = snd (spec_marks ow tw)\<rparr>"
proof -
  from build_dp_filled[of ow tw] obtain dp where
    b: "build_dp ow tw = Some dp" and co: "filled ow tw dp" by blast
  let ?s = "tb_start (length ow) (length tw)"
  from traceback_refines[OF co, of ?s] obtain st' where
    t: "traceback ow tw dp ?s = Some st'"
    and l: "tb_i st' \<le> length (tb_originalMark st')" "tb_j st' \<le> length (tb_typedMark st')"
    and m: "(replicate (tb_i st') True @ drop (tb_i st') (tb_originalMark st'),
            replicate (tb_j st') True @ drop (tb_j st') (tb_typedMark st')) = spec_marks ow tw"
    by (auto simp: tb_start_def spec_marks_def)
  from wordEditDistance_eq[OF b co t l] m[symmetric] show ?thesis by simp
qed

section \<open>The claims\<close>


text \<open>
  C1. For every pair of token sequences, \<^verbatim>\<open>wordEditDistance\<close> returns, and the field
  \<open>errors\<close> of its result is the token-level Levenshtein distance at \<open>(m, n)\<close>, the
  distance being the function with the base cases \<open>distance(i, 0) = i\<close>,
  \<open>distance(0, j) = j\<close> and the recurrence on \<open>reference[i-1] = typed[j-1]\<close>.
\<close>
theorem errors_is_levenshtein_distance:
  "(\<exists>r. wordEditDistance ow tw = Some r \<and> errors r = distance ow tw (length ow) (length tw)) \<and>
   distance ow tw i 0 = i \<and> distance ow tw 0 j = j \<and>
   distance ow tw (Suc i) (Suc j) =
     (if ow ! i = tw ! j then distance ow tw i j
      else 1 + min (distance ow tw i j) (min (distance ow tw i (Suc j)) (distance ow tw (Suc i) j)))"
  using errors_distance[of ow tw] by (simp add: distance_0_left)

theorem errors_is_levenshtein_distance_witness:
  "\<exists>r. wordEditDistance [''a'', ''b'', ''c''] [''a'', ''x'', ''b'', ''c''] = Some r \<and> errors r = 1"
proof -
  have "distance [''a'', ''b'', ''c''] [''a'', ''x'', ''b'', ''c''] 3 4 = 1" by code_simp
  with errors_is_levenshtein_distance[of "[''a'', ''b'', ''c'']" "[''a'', ''x'', ''b'', ''c'']"]
  show ?thesis by simp
qed

text \<open>
  C2. The traceback of \<^verbatim>\<open>wordEditDistance\<close> is the walk that the specification
  describes: on every pair of inputs the function returns the marking vectors of
  \<open>spec_marks\<close>, the walk backward from \<open>(m, n)\<close> that moves diagonally without a mark
  on equal tokens, otherwise tries substitution (diagonal + 1, both positions marked),
  then deletion (up + 1, the reference position marked), then insertion (left + 1, the
  typed position marked), and at a boundary marks every remaining position of the
  surviving axis. On the reference \<open>the quick brown fox\<close> and the typed
  \<open>the quikc brown\<close> the result has \<open>errors = 2\<close>, reference marks
  \<open>[false, true, false, true]\<close> and typed marks \<open>[false, true, false]\<close>; the loop takes
  a deletion, a match, a substitution and a match.
\<close>

theorem traceback_follows_specification:
  "wordEditDistance ow tw =
     Some \<lparr>errors = distance ow tw (length ow) (length tw),
           originalMark = fst (spec_marks ow tw), typedMark = snd (spec_marks ow tw)\<rparr> \<and>
   spec_marks ow tw =
     spec_traceback ow tw (length ow) (length tw)
       (replicate (length ow) False) (replicate (length tw) False) \<and>
   spec_traceback ow tw 0 j rm tm = (rm, map (\<lambda>k. k < j \<or> tm ! k) [0..<length tm]) \<and>
   spec_traceback ow tw (Suc i) 0 rm tm =
     (map (\<lambda>k. k < Suc i \<or> rm ! k) [0..<length rm], tm) \<and>
   spec_traceback ow tw (Suc i) (Suc j) rm tm =
     (if ow ! i = tw ! j then spec_traceback ow tw i j rm tm
      else if distance ow tw (Suc i) (Suc j) = distance ow tw i j + 1 then
        spec_traceback ow tw i j (rm[i := True]) (tm[j := True])
      else if distance ow tw (Suc i) (Suc j) = distance ow tw i (Suc j) + 1 then
        spec_traceback ow tw i (Suc j) (rm[i := True]) tm
      else if distance ow tw (Suc i) (Suc j) = distance ow tw (Suc i) j + 1 then
        spec_traceback ow tw (Suc i) j rm (tm[j := True])
      else spec_traceback ow tw i j rm tm) \<and>
   wordEditDistance [''the'', ''quick'', ''brown'', ''fox''] [''the'', ''quikc'', ''brown''] =
     Some \<lparr>errors = 2, originalMark = [False, True, False, True],
           typedMark = [False, True, False]\<rparr> \<and>
   traceback_moves [''the'', ''quick'', ''brown'', ''fox''] [''the'', ''quikc'', ''brown''] =
     Some [Deletion, Match, Substitution, Match]"
proof -
  have sc: "wordEditDistance [''the'', ''quick'', ''brown'', ''fox''] [''the'', ''quikc'', ''brown''] =
     Some \<lparr>errors = 2, originalMark = [False, True, False, True],
           typedMark = [False, True, False]\<rparr>"
    by code_simp
  have mv: "traceback_moves [''the'', ''quick'', ''brown'', ''fox''] [''the'', ''quikc'', ''brown''] =
     Some [Deletion, Match, Substitution, Match]"
    by code_simp
  show ?thesis
    by (intro conjI wordEditDistance_refines spec_marks_def spec_traceback.simps sc mv)
qed

theorem traceback_follows_specification_witness:
  "wordEditDistance [''a'', ''b''] [''c''] =
     Some \<lparr>errors = 2, originalMark = [True, True], typedMark = [True]\<rparr> \<and>
   wordEditDistance [''a'', ''b'', ''c''] [''a'', ''x'', ''b'', ''c''] =
     Some \<lparr>errors = 1, originalMark = [False, False, False],
           typedMark = [False, True, False, False]\<rparr>"
proof -
  have d1: "distance [''a'', ''b''] [''c''] (length [''a'', ''b'']) (length [''c'']) = 2"
    by code_simp
  have m1: "spec_marks [''a'', ''b''] [''c''] = ([True, True], [True])" by code_simp
  have d2: "distance [''a'', ''b'', ''c''] [''a'', ''x'', ''b'', ''c'']
      (length [''a'', ''b'', ''c'']) (length [''a'', ''x'', ''b'', ''c'']) = 1"
    by code_simp
  have m2: "spec_marks [''a'', ''b'', ''c''] [''a'', ''x'', ''b'', ''c''] =
    ([False, False, False], [False, True, False, False])" by code_simp
  have w1: "wordEditDistance [''a'', ''b''] [''c''] =
     Some \<lparr>errors = 2, originalMark = [True, True], typedMark = [True]\<rparr>"
    using traceback_follows_specification[of "[''a'', ''b'']" "[''c'']", THEN conjunct1]
    unfolding d1 m1 fst_conv snd_conv .
  have w2: "wordEditDistance [''a'', ''b'', ''c''] [''a'', ''x'', ''b'', ''c''] =
     Some \<lparr>errors = 1, originalMark = [False, False, False],
           typedMark = [False, True, False, False]\<rparr>"
    using traceback_follows_specification[of "[''a'', ''b'', ''c'']" "[''a'', ''x'', ''b'', ''c'']",
      THEN conjunct1]
    unfolding d2 m2 fst_conv snd_conv .
  from w1 w2 show ?thesis by (rule conjI)
qed

text \<open>
  C3. With an empty reference the result has \<open>errors = n\<close>, every typed position marked
  and no reference mark; with an empty typed sequence it has \<open>errors = m\<close> and every
  reference position marked; with both empty it has \<open>errors = 0\<close> and no marks at all.
\<close>
theorem empty_inputs:
  "wordEditDistance [] tw =
     Some \<lparr>errors = length tw, originalMark = [], typedMark = replicate (length tw) True\<rparr> \<and>
   wordEditDistance ow [] =
     Some \<lparr>errors = length ow, originalMark = replicate (length ow) True, typedMark = []\<rparr> \<and>
   wordEditDistance [] [] = Some \<lparr>errors = 0, originalMark = [], typedMark = []\<rparr>"
  using wordEditDistance_Nil_left[of tw] wordEditDistance_Nil_right[of ow]
    wordEditDistance_Nil_left[of "[]"] by simp

text \<open>
  C4. The accuracy computation is not guarded against an empty typed sequence: with
  \<open>typedWordCount = 0\<close> the quotient of line 197 is \<open>-m / 0\<close>, so \<^verbatim>\<open>showResult\<close> passes
  \<^verbatim>\<open>"-Infinity"\<close> (or \<^verbatim>\<open>"NaN"\<close> when the reference is empty as well) both to
  \<^verbatim>\<open>saveHistoryRecord\<close> and to the displayed result.
\<close>

theorem accuracy_unguarded_on_empty_typed:
  "(\<exists>gross net. showResult history ow [] stored =
      Some (history @
              [\<lparr>h_grossWPM = gross, h_netWPM = net,
                h_accuracy = (if ow = [] then TextNaN else TextNegInfinity),
                h_errors = length ow\<rparr>],
            \<lparr>h_grossWPM = gross, h_netWPM = net,
             h_accuracy = (if ow = [] then TextNaN else TextNegInfinity),
             h_errors = length ow\<rparr>)) \<and>
   showResult [] [''the'', ''quick''] [] (Some 2) =
     Some ([\<lparr>h_grossWPM = Hundredths 0, h_netWPM = Hundredths (- 100),
             h_accuracy = TextNegInfinity, h_errors = 2\<rparr>],
           \<lparr>h_grossWPM = Hundredths 0, h_netWPM = Hundredths (- 100),
            h_accuracy = TextNegInfinity, h_errors = 2\<rparr>) \<and>
   showResult [] [] [] None =
     Some ([\<lparr>h_grossWPM = Hundredths 0, h_netWPM = Hundredths 0,
             h_accuracy = TextNaN, h_errors = 0\<rparr>],
           \<lparr>h_grossWPM = Hundredths 0, h_netWPM = Hundredths 0,
            h_accuracy = TextNaN, h_errors = 0\<rparr>)"
proof -
  have g: "\<exists>gross net. showResult history ow [] stored =
      Some (history @
              [\<lparr>h_grossWPM = gross, h_netWPM = net,
                h_accuracy = (if ow = [] then TextNaN else TextNegInfinity),
                h_errors = length ow\<rparr>],
            \<lparr>h_grossWPM = gross, h_netWPM = net,
             h_accuracy = (if ow = [] then TextNaN else TextNegInfinity),
             h_errors = length ow\<rparr>)"
    by (simp add: showResult_def wordEditDistance_Nil_right saveHistoryRecord_def js_div_def
        Let_def)
  have a: "showResult [] [''the'', ''quick''] [] (Some 2) =
     Some ([\<lparr>h_grossWPM = Hundredths 0, h_netWPM = Hundredths (- 100),
             h_accuracy = TextNegInfinity, h_errors = 2\<rparr>],
           \<lparr>h_grossWPM = Hundredths 0, h_netWPM = Hundredths (- 100),
            h_accuracy = TextNegInfinity, h_errors = 2\<rparr>)"
    by code_simp
  have b: "showResult [] [] [] None =
     Some ([\<lparr>h_grossWPM = Hundredths 0, h_netWPM = Hundredths 0,
             h_accuracy = TextNaN, h_errors = 0\<rparr>],
           \<lparr>h_grossWPM = Hundredths 0, h_netWPM = Hundredths 0,
            h_accuracy = TextNaN, h_errors = 0\<rparr>)"
    by code_simp
  show ?thesis by (intro conjI g a b)
qed

text \<open>
  C5. On every pair of inputs the first traceback loop never takes its last branch, the
  fallback: in the matrix that the fill produces, every cell whose two tokens differ is
  one more than its diagonal, upper or left neighbour.
\<close>
theorem fallback_never_taken:
  "\<exists>dp mv. build_dp ow tw = Some dp \<and> traceback_moves ow tw = Some mv \<and> Fallback \<notin> set mv \<and>
     (\<forall>i<length ow. \<forall>j<length tw. ow ! i \<noteq> tw ! j \<longrightarrow>
        dp ! Suc i ! Suc j = dp ! i ! j + 1 \<or>
        dp ! Suc i ! Suc j = dp ! i ! Suc j + 1 \<or>
        dp ! Suc i ! Suc j = dp ! Suc i ! j + 1)"
proof -
  from build_dp_filled[of ow tw] obtain dp where
    b: "build_dp ow tw = Some dp" and co: "filled ow tw dp" by blast
  from traceback_total[OF co, of "tb_start (length ow) (length tw)"] obtain st where
    t: "traceback ow tw dp (tb_start (length ow) (length tw)) = Some st"
    and f: "Fallback \<notin> set (tb_trace st)"
    by (auto simp: tb_start_def)
  have m: "traceback_moves ow tw = Some (tb_trace st)"
    by (simp add: traceback_moves_def b t)
  have "dp ! Suc i ! Suc j = dp ! i ! j + 1 \<or>
        dp ! Suc i ! Suc j = dp ! i ! Suc j + 1 \<or>
        dp ! Suc i ! Suc j = dp ! Suc i ! j + 1"
    if "i < length ow" "j < length tw" "ow ! i \<noteq> tw ! j" for i j
    using distance_mismatch[OF that(3)] that(1,2)
    by (simp add: filled_nth[OF co] del: distance.simps)
  with b m f show ?thesis by blast
qed

theorem fallback_never_taken_witness:
  "\<exists>dp mv. build_dp [''a'', ''b''] [''c''] = Some dp \<and> traceback_moves [''a'', ''b''] [''c''] = Some mv \<and>
     Fallback \<notin> set mv \<and> (0::nat) < length [''a'', ''b''] \<and> (0::nat) < length [''c''] \<and>
     [''a'', ''b''] ! 0 \<noteq> [''c''] ! 0 \<and>
     (dp ! 1 ! 1 = dp ! 0 ! 0 + 1 \<or> dp ! 1 ! 1 = dp ! 0 ! 1 + 1 \<or> dp ! 1 ! 1 = dp ! 1 ! 0 + 1)"
proof -
  from fallback_never_taken[of "[''a'', ''b'']" "[''c'']"] obtain dp mv where
    b: "build_dp [''a'', ''b''] [''c''] = Some dp"
    and m: "traceback_moves [''a'', ''b''] [''c''] = Some mv" and f: "Fallback \<notin> set mv"
    and c: "\<forall>i<length [''a'', ''b'']. \<forall>j<length [''c'']. [''a'', ''b''] ! i \<noteq> [''c''] ! j \<longrightarrow>
        dp ! Suc i ! Suc j = dp ! i ! j + 1 \<or>
        dp ! Suc i ! Suc j = dp ! i ! Suc j + 1 \<or>
        dp ! Suc i ! Suc j = dp ! Suc i ! j + 1"
    by blast
  from c have "dp ! 1 ! 1 = dp ! 0 ! 0 + 1 \<or> dp ! 1 ! 1 = dp ! 0 ! 1 + 1 \<or> dp ! 1 ! 1 = dp ! 1 ! 0 + 1"
    by simp
  with b m f show ?thesis by simp
qed

text \<open>
  C6. The scalar result is symmetric: both calls return, and \<open>errors\<close> of
  \<^verbatim>\<open>wordEditDistance(A, B)\<close> equals \<open>errors\<close> of \<^verbatim>\<open>wordEditDistance(B, A)\<close>.
\<close>
theorem errors_symmetric:
  "\<exists>r r'. wordEditDistance a b = Some r \<and> wordEditDistance b a = Some r' \<and> errors r = errors r'"
  using errors_distance[of a b] errors_distance[of b a] distance_sym[of a b "length a" "length b"]
  by auto

text \<open>
  C7. The scalar result is at most the length of the longer input.
\<close>
theorem errors_upper_bound:
  "\<exists>r. wordEditDistance a b = Some r \<and> errors r \<le> max (length a) (length b)"
  using errors_distance[of a b] distance_le_max[of a b "length a" "length b"] by auto

text \<open>
  C8. On two identical sequences the result has \<open>errors = 0\<close> and both marking vectors
  entirely false.
\<close>
theorem identical_inputs:
  "wordEditDistance a a =
     Some \<lparr>errors = 0, originalMark = replicate (length a) False,
           typedMark = replicate (length a) False\<rparr>"
  by (rule wordEditDistance_same)

text \<open>
  C9. For every pair of inputs, repetitive ones included, \<^verbatim>\<open>wordEditDistance\<close> returns a
  result (no access leaves its array) whose marking vectors have the lengths \<open>m\<close> and
  \<open>n\<close>; the first traceback loop runs at most \<open>m + n\<close> iterations, each of which
  decreases \<open>i\<close> or \<open>j\<close>.
\<close>
theorem total_with_marking_lengths:
  "\<exists>r mv. wordEditDistance ow tw = Some r \<and> length (originalMark r) = length ow \<and>
     length (typedMark r) = length tw \<and>
     traceback_moves ow tw = Some mv \<and> length mv \<le> length ow + length tw"
proof -
  from wordEditDistance_run[of ow tw] obtain st :: tb_state where
    w: "wordEditDistance ow tw =
      Some \<lparr>errors = distance ow tw (length ow) (length tw),
            originalMark = replicate (tb_i st) True @ drop (tb_i st) (tb_originalMark st),
            typedMark = replicate (tb_j st) True @ drop (tb_j st) (tb_typedMark st)\<rparr>"
    and m: "traceback_moves ow tw = Some (tb_trace st)"
    and b: "tb_i st \<le> length ow" "tb_j st \<le> length tw"
    and l: "length (tb_originalMark st) = length ow" "length (tb_typedMark st) = length tw"
    and n: "length (tb_trace st) \<le> length ow + length tw"
    by blast
  show ?thesis using w m b l n by simp
qed

theorem total_with_marking_lengths_witness:
  "\<exists>r mv. wordEditDistance (replicate 3 ''a'') (replicate 2 ''a'') = Some r \<and>
     length (originalMark r) = 3 \<and> length (typedMark r) = 2 \<and>
     traceback_moves (replicate 3 ''a'') (replicate 2 ''a'') = Some mv \<and> length mv \<le> 5"
  using total_with_marking_lengths[of "replicate 3 ''a''" "replicate 2 ''a''"] by simp

text \<open>
  C10. There are inputs with a non-empty typed sequence on which \<open>errors\<close> exceeds the
  number of typed words: a reference of three words against one typed word that matches
  none of them gives \<open>errors = 3\<close>, and the net WPM and the accuracy that
  \<^verbatim>\<open>showResult\<close> stores and displays are negative (\<open>-2.00\<close> and \<open>-200.00\<close> after one
  minute).
\<close>

theorem negative_metrics_example:
  "wordEditDistance [''a'', ''b'', ''c''] [''x''] =
     Some \<lparr>errors = 3, originalMark = [True, True, True], typedMark = [True]\<rparr> \<and>
   length [''x''] < (3::nat) \<and>
   showResult [] [''a'', ''b'', ''c''] [''x''] (Some 1) =
     Some ([\<lparr>h_grossWPM = Hundredths 100, h_netWPM = Hundredths (- 200),
             h_accuracy = Hundredths (- 20000), h_errors = 3\<rparr>],
           \<lparr>h_grossWPM = Hundredths 100, h_netWPM = Hundredths (- 200),
            h_accuracy = Hundredths (- 20000), h_errors = 3\<rparr>)"
proof -
  have w: "wordEditDistance [''a'', ''b'', ''c''] [''x''] =
     Some \<lparr>errors = 3, originalMark = [True, True, True], typedMark = [True]\<rparr>"
    by code_simp
  have s: "showResult [] [''a'', ''b'', ''c''] [''x''] (Some 1) =
     Some ([\<lparr>h_grossWPM = Hundredths 100, h_netWPM = Hundredths (- 200),
             h_accuracy = Hundredths (- 20000), h_errors = 3\<rparr>],
           \<lparr>h_grossWPM = Hundredths 100, h_netWPM = Hundredths (- 200),
            h_accuracy = Hundredths (- 20000), h_errors = 3\<rparr>)"
    by code_simp
  show ?thesis using w s by simp
qed

end
